theory Spec2Isabelle
  imports Complex_Main
begin

section \<open>JavaScript values as HOL values\<close>

text \<open>
  The dashboard is a single TypeScript module, \<^verbatim>\<open>src/App.tsx\<close>. Its numbers are modelled
  as \<^typ>\<open>real\<close> (the idealisation of an IEEE double; no claim below depends on rounding),
  array lengths as \<^typ>\<open>nat\<close>, and an optional or nullable field as an \<^typ>\<open>'a option\<close>:
  \<open>None\<close> stands for both \<^verbatim>\<open>undefined\<close> and \<^verbatim>\<open>null\<close>, which the module never tells
  apart (it only applies \<^verbatim>\<open>??\<close>, \<^verbatim>\<open>||\<close>, \<^verbatim>\<open>== null\<close> and truthiness tests to them).
\<close>

text \<open>\<^verbatim>\<open>a ?? b\<close> on optional values.\<close>

definition nullish :: "'a option \<Rightarrow> 'a option \<Rightarrow> 'a option" where
  "nullish a b = (case a of Some x \<Rightarrow> Some x | None \<Rightarrow> b)"

text \<open>\<^verbatim>\<open>a ?? d\<close> with a default that is always there.\<close>

definition nullish_default :: "'a option \<Rightarrow> 'a \<Rightarrow> 'a" where
  "nullish_default a d = (case a of Some x \<Rightarrow> x | None \<Rightarrow> d)"

text \<open>Truthiness of an optional string: absent, null and the empty string are falsy.\<close>

definition truthy_string :: "string option \<Rightarrow> bool" where
  "truthy_string a = (case a of Some s \<Rightarrow> s \<noteq> [] | None \<Rightarrow> False)"

text \<open>\<^verbatim>\<open>a || d\<close> on an optional string with a string default.\<close>

definition or_string :: "string option \<Rightarrow> string \<Rightarrow> string" where
  "or_string a d = (case a of Some s \<Rightarrow> (if s \<noteq> [] then s else d) | None \<Rightarrow> d)"

text \<open>
  \<^verbatim>\<open>new Map(pairs)\<close>: the pairs are stored one after the other, so a later pair with
  the same key replaces an earlier one.
\<close>

definition js_Map :: "('k \<times> 'v) list \<Rightarrow> ('k \<rightharpoonup> 'v)" where
  "js_Map pairs = foldl (\<lambda>m kv. m(fst kv \<mapsto> snd kv)) Map.empty pairs"

text \<open>\<^verbatim>\<open>items.slice(start, end)\<close> for non-negative integer bounds.\<close>

definition slice :: "'a list \<Rightarrow> nat \<Rightarrow> nat \<Rightarrow> 'a list" where
  "slice items start end' = drop start (take end' items)"

section \<open>Data model\<close>

text \<open>
  The types \<^verbatim>\<open>ServerStats\<close> and \<^verbatim>\<open>ServerEntry\<close>. The field \<^verbatim>\<open>pm2BadCount\<close> is only ever
  assigned the length of an array, so it is a natural number here. The field \<^verbatim>\<open>id\<close> of an
  entry is \<open>entry_id\<close>, since \<open>id\<close> is the identity function of HOL. Strings are
  \<^typ>\<open>string\<close>; the module compares, concatenates and lowers them and tests them for
  emptiness, nothing else.
\<close>

record ServerStats =
  cpuUsage :: "real option"
  memoryTotal :: "real option"
  memoryUsed :: "real option"
  diskTotal :: "real option"
  diskUsed :: "real option"
  uptime :: "string option"
  pm2Procs :: "real option"
  pm2Mem :: "real option"
  pm2BadCount :: "nat option"
  pm2BadNames :: "string list option"
  supervisorTotal :: "real option"
  supervisorRunning :: "real option"
  error :: "string option"

record ServerEntry =
  entry_id :: string
  name :: string
  host :: string
  enabled :: bool
  tags :: "string list"
  stats :: "ServerStats option"
  lastUpdate :: "real option"

section \<open>Paging: \<^verbatim>\<open>chunk\<close>\<close>

text \<open>
  The \<^verbatim>\<open>for (let i = 0; i < items.length; i += size)\<close> loop of \<^verbatim>\<open>chunk\<close>, with the loop
  variable and the pages pushed so far as arguments. The loop is only entered with
  \<^verbatim>\<open>size > 0\<close> (the function returns before it otherwise), which is what makes it end.
\<close>

function chunk_loop :: "'a list \<Rightarrow> nat \<Rightarrow> nat \<Rightarrow> 'a list list \<Rightarrow> 'a list list" where
  "chunk_loop items size' i pages =
     (if 0 < size' \<and> i < length items
      then chunk_loop items size' (i + size') (pages @ [slice items i (i + size')])
      else pages)"
  by pat_completeness auto
termination
  by (relation "measure (\<lambda>(items, size', i, pages). length items - i)") auto

declare chunk_loop.simps [simp del]

definition chunk :: "'a list \<Rightarrow> int \<Rightarrow> 'a list list" where
  "chunk items size' =
     (if size' \<le> 0 then [items]
      else let pages = chunk_loop items (nat size') 0 []
           in if pages \<noteq> [] then pages else [[]])"

section \<open>Status and alert evaluation\<close>

definition clamp :: "real \<Rightarrow> real \<Rightarrow> real \<Rightarrow> real" where
  "clamp value mn mx = min mx (max mn value)"

definition percent :: "real option \<Rightarrow> real option \<Rightarrow> real option" where
  "percent part total' =
     (case part of
        None \<Rightarrow> None
      | Some p \<Rightarrow>
          (case total' of
             None \<Rightarrow> None
           | Some t \<Rightarrow> if t = 0 then None else Some (clamp ((p / t) * 100) 0 100)))"

text \<open>
  The age of an entry is \<^verbatim>\<open>server.lastUpdate ? now - server.lastUpdate : Infinity\<close>: a
  missing timestamp, and the falsy timestamp 0, give the infinite age.
\<close>

datatype age = Finite real | PositiveInfinity

definition entry_age :: "ServerEntry \<Rightarrow> real \<Rightarrow> age" where
  "entry_age server now =
     (case lastUpdate server of
        None \<Rightarrow> PositiveInfinity
      | Some t \<Rightarrow> if t \<noteq> 0 then Finite (now - t) else PositiveInfinity)"

text \<open>\<^verbatim>\<open>age > limit\<close> for a finite limit.\<close>

fun age_gt :: "age \<Rightarrow> real \<Rightarrow> bool" where
  "age_gt (Finite a) limit = (limit < a)"
| "age_gt PositiveInfinity limit = True"

datatype StatusKey = Ok | Warn | Down | Idle | Stale | Disabled

record StatusInfo =
  key :: StatusKey
  label :: string

definition getStatus :: "ServerEntry \<Rightarrow> real \<Rightarrow> StatusInfo" where
  "getStatus server now =
     (if \<not> enabled server then \<lparr>key = Disabled, label = ''Disabled''\<rparr>
      else case stats server of
        None \<Rightarrow> \<lparr>key = Idle, label = ''Waiting''\<rparr>
      | Some st \<Rightarrow>
          if truthy_string (error st) then \<lparr>key = Down, label = ''Error''\<rparr>
          else if age_gt (entry_age server now) 60000 then \<lparr>key = Stale, label = ''Stale''\<rparr>
          else
            let memPercent = nullish_default (percent (memoryUsed st) (memoryTotal st)) 0;
                diskPercent = nullish_default (percent (diskUsed st) (diskTotal st)) 0;
                cpu = nullish_default (cpuUsage st) 0
            in if cpu > 85 \<or> memPercent > 90 \<or> diskPercent > 92
               then \<lparr>key = Warn, label = ''Hot''\<rparr>
               else \<lparr>key = Ok, label = ''Nominal''\<rparr>)"

text \<open>
  The alert thresholds are read from the environment when the module loads
  (\<^verbatim>\<open>parseEnvNumber\<close>, which only lets a finite number through); they are parameters here.
\<close>

record AlertConfig =
  ALERT_CPU :: real
  ALERT_MEMORY :: real
  ALERT_DISK :: real
  ALERT_STALE_MS :: real

text \<open>The fallbacks of \<^verbatim>\<open>parseEnvNumber\<close> for the four thresholds.\<close>

definition default_alerts :: AlertConfig where
  "default_alerts =
     \<lparr>ALERT_CPU = 90, ALERT_MEMORY = 92, ALERT_DISK = 95, ALERT_STALE_MS = 90000\<rparr>"

definition shouldAlert :: "AlertConfig \<Rightarrow> ServerEntry \<Rightarrow> real \<Rightarrow> bool" where
  "shouldAlert cfg server now =
     (if \<not> enabled server then False
      else case stats server of
        None \<Rightarrow> False
      | Some st \<Rightarrow>
          if truthy_string (error st) then True
          else if age_gt (entry_age server now) (ALERT_STALE_MS cfg) then True
          else
            let memPercent = nullish_default (percent (memoryUsed st) (memoryTotal st)) 0;
                diskPercent = nullish_default (percent (diskUsed st) (diskTotal st)) 0;
                cpu = nullish_default (cpuUsage st) 0;
                pm2Bad = (nullish_default (pm2BadCount st) 0 > 0)
            in cpu \<ge> ALERT_CPU cfg \<or> memPercent \<ge> ALERT_MEMORY cfg
               \<or> diskPercent \<ge> ALERT_DISK cfg \<or> pm2Bad)"



definition spec_error_set :: "ServerStats \<Rightarrow> bool" where
  "spec_error_set st = (case error st of None \<Rightarrow> False | Some msg \<Rightarrow> msg \<noteq> [])"






section \<open>The reconciler: list snapshots, stats updates, server errors\<close>

record IncomingServerListItem =
  li_server_id :: string
  li_server_name :: "string option"
  li_host :: "string option"
  li_enabled :: bool
  li_tags :: "string list"

text \<open>
  An incoming update has the fields of \<^typ>\<open>ServerStats\<close> and the id of the server,
  as the TypeScript type \<^verbatim>\<open>IncomingServerUpdate\<close> has.
\<close>

record IncomingServerUpdate = ServerStats +
  server_id :: string

record IncomingServerError =
  err_server_id :: string
  err_error :: "string option"

text \<open>\<^verbatim>\<open>item.stats?.f\<close>\<close>

definition stats_field :: "ServerEntry \<Rightarrow> (ServerStats \<Rightarrow> 'a option) \<Rightarrow> 'a option" where
  "stats_field item f = (case stats item of None \<Rightarrow> None | Some st \<Rightarrow> f st)"

text \<open>
  The three operations are the updater functions handed to \<^verbatim>\<open>setServers\<close>, from the
  previous registry to the next one, together with the guard in front of them. The
  time \<^verbatim>\<open>Date.now()\<close> is an argument.
\<close>

definition applyServerList :: "IncomingServerListItem list \<Rightarrow> ServerEntry list \<Rightarrow> ServerEntry list" where
  "applyServerList incoming prev =
     (if incoming = [] then prev
      else
        let prevMap = js_Map (map (\<lambda>item. (entry_id item, item)) prev)
        in map (\<lambda>item.
              let existing = prevMap (li_server_id item)
              in \<lparr>entry_id = li_server_id item,
                  name = or_string (li_server_name item) (or_string (li_host item) (li_server_id item)),
                  host = or_string (li_host item) ''--'',
                  enabled = li_enabled item,
                  tags = li_tags item,
                  stats = (case existing of None \<Rightarrow> None | Some e \<Rightarrow> stats e),
                  lastUpdate = (case existing of None \<Rightarrow> None | Some e \<Rightarrow> lastUpdate e)\<rparr>)
            incoming)"

definition applyServerUpdates :: "IncomingServerUpdate list \<Rightarrow> real \<Rightarrow> ServerEntry list \<Rightarrow> ServerEntry list" where
  "applyServerUpdates updates timestamp prev =
     (if updates = [] then prev
      else
        let updateMap = js_Map (map (\<lambda>item. (server_id item, item)) updates)
        in map (\<lambda>item.
              case updateMap (entry_id item) of
                None \<Rightarrow> item
              | Some payload \<Rightarrow>
                  item\<lparr>stats := Some
                         \<lparr>cpuUsage = nullish (cpuUsage payload) (stats_field item cpuUsage),
                          memoryTotal = nullish (memoryTotal payload) (stats_field item memoryTotal),
                          memoryUsed = nullish (memoryUsed payload) (stats_field item memoryUsed),
                          diskTotal = nullish (diskTotal payload) (stats_field item diskTotal),
                          diskUsed = nullish (diskUsed payload) (stats_field item diskUsed),
                          uptime = nullish (uptime payload) (stats_field item uptime),
                          pm2Procs = nullish (pm2Procs payload) (stats_field item pm2Procs),
                          pm2Mem = nullish (pm2Mem payload) (stats_field item pm2Mem),
                          pm2BadCount = nullish (pm2BadCount payload) (stats_field item pm2BadCount),
                          pm2BadNames = nullish (pm2BadNames payload) (stats_field item pm2BadNames),
                          supervisorTotal = nullish (supervisorTotal payload) (stats_field item supervisorTotal),
                          supervisorRunning = nullish (supervisorRunning payload) (stats_field item supervisorRunning),
                          error = nullish (error payload) None\<rparr>,
                       lastUpdate := Some timestamp\<rparr>)
            prev)"

definition applyServerUpdate :: "IncomingServerUpdate \<Rightarrow> real \<Rightarrow> ServerEntry list \<Rightarrow> ServerEntry list" where
  "applyServerUpdate payload timestamp prev = applyServerUpdates [payload] timestamp prev"

text \<open>The object \<^verbatim>\<open>{ ...item.stats }\<close> when \<^verbatim>\<open>item.stats\<close> is undefined: no field is set.\<close>

definition no_stats :: ServerStats where
  "no_stats =
     \<lparr>cpuUsage = None, memoryTotal = None, memoryUsed = None, diskTotal = None,
      diskUsed = None, uptime = None, pm2Procs = None, pm2Mem = None, pm2BadCount = None,
      pm2BadNames = None, supervisorTotal = None, supervisorRunning = None, error = None\<rparr>"

definition applyServerError :: "IncomingServerError \<Rightarrow> real \<Rightarrow> ServerEntry list \<Rightarrow> ServerEntry list" where
  "applyServerError payload timestamp prev =
     map (\<lambda>item.
        if entry_id item = err_server_id payload
        then item\<lparr>stats := Some ((case stats item of None \<Rightarrow> no_stats | Some st \<Rightarrow> st)
                                  \<lparr>error := Some (or_string (err_error payload) ''Server error'')\<rparr>),
                  lastUpdate := Some timestamp\<rparr>
        else item)
      prev"

text \<open>
  A history of the registry: the operations applied to it, each with the clock reading
  of its handler, starting from \<^verbatim>\<open>useState<ServerEntry[]>([])\<close>.
\<close>

datatype registry_op =
  ListSnapshot "IncomingServerListItem list"
| StatsUpdates "IncomingServerUpdate list" real
| ServerError IncomingServerError real

fun apply_op :: "ServerEntry list \<Rightarrow> registry_op \<Rightarrow> ServerEntry list" where
  "apply_op reg (ListSnapshot incoming) = applyServerList incoming reg"
| "apply_op reg (StatsUpdates updates timestamp) = applyServerUpdates updates timestamp reg"
| "apply_op reg (ServerError payload timestamp) = applyServerError payload timestamp reg"

definition run_ops :: "registry_op list \<Rightarrow> ServerEntry list" where
  "run_ops ops = foldl apply_op [] ops"

text \<open>The clock readings of a history.\<close>

fun op_times :: "registry_op \<Rightarrow> real list" where
  "op_times (ListSnapshot incoming) = []"
| "op_times (StatsUpdates updates timestamp) = [timestamp]"
| "op_times (ServerError payload timestamp) = [timestamp]"

section \<open>Metric parsers\<close>

text \<open>
  An inbound payload is whatever \<^verbatim>\<open>JSON.parse\<close> (or the HTTP client) delivers. An object
  is the list of its own properties; reading a property that is not there, or a property
  of something that is not an object, gives \<^verbatim>\<open>undefined\<close>, which is \<open>None\<close>. None of the
  property names the parsers read exists on an array, so an array has none of them.
\<close>

datatype json =
  JNull
| JBool bool
| JNumber real
| JString string
| JArray "json list"
| JObject "(string \<times> json) list"

fun get_prop :: "json option \<Rightarrow> string \<Rightarrow> json option" where
  "get_prop (Some (JObject kvs)) k = map_of kvs k"
| "get_prop _ k = None"

text \<open>\<^verbatim>\<open>typeof value === 'object' && value !== null\<close>: objects and arrays.\<close>

fun isRecord :: "json option \<Rightarrow> bool" where
  "isRecord (Some (JObject kvs)) = True"
| "isRecord (Some (JArray xs)) = True"
| "isRecord _ = False"

fun toString :: "json option \<Rightarrow> string option" where
  "toString (Some (JString s)) = Some s"
| "toString _ = None"

fun toNumber :: "json option \<Rightarrow> real option" where
  "toNumber (Some (JNumber n)) = Some n"
| "toNumber _ = None"

fun toBoolean :: "json option \<Rightarrow> bool option" where
  "toBoolean (Some (JBool b)) = Some b"
| "toBoolean _ = None"

fun string_items :: "json list \<Rightarrow> string list" where
  "string_items [] = []"
| "string_items (JString s # xs) = s # string_items xs"
| "string_items (x # xs) = string_items xs"

fun toStringArray :: "json option \<Rightarrow> string list" where
  "toStringArray (Some (JArray xs)) = string_items xs"
| "toStringArray _ = []"

text \<open>
  \<^verbatim>\<open>status.toLowerCase()\<close> on the letters A to Z. No other character lowers to a
  letter of \<^verbatim>\<open>online\<close> alone, so the comparison with that word is the source's.
\<close>

definition upper_to_lower :: "(char \<times> char) list" where
  "upper_to_lower = zip ''ABCDEFGHIJKLMNOPQRSTUVWXYZ'' ''abcdefghijklmnopqrstuvwxyz''"

definition lower_char :: "char \<Rightarrow> char" where
  "lower_char c = (case map_of upper_to_lower c of Some l \<Rightarrow> l | None \<Rightarrow> c)"

definition toLowerCase :: "string \<Rightarrow> string" where
  "toLowerCase s = map lower_char s"

text \<open>
  \<^verbatim>\<open>isRecord(value.a) ? f(value.a.b) : undefined\<close>, for a conversion \<open>f\<close> that maps
  \<^verbatim>\<open>undefined\<close> to \<^verbatim>\<open>undefined\<close>: the value handed to \<open>f\<close>.
\<close>

definition nested :: "json option \<Rightarrow> string \<Rightarrow> string \<Rightarrow> json option" where
  "nested value a b = (if isRecord (get_prop value a) then get_prop (get_prop value a) b else None)"

text \<open>One round of the \<^verbatim>\<open>details.forEach\<close> callback, on the names pushed so far.\<close>

definition bad_step :: "string list \<Rightarrow> json \<Rightarrow> string list" where
  "bad_step badNames detail =
     (if \<not> isRecord (Some detail) then badNames
      else
        case toString (get_prop (Some detail) ''status'') of
          None \<Rightarrow> badNames
        | Some status \<Rightarrow>
            if status \<noteq> [] \<and> toLowerCase status \<noteq> ''online''
            then
              let name = nullish (toString (get_prop (Some detail) ''name''))
                                 (toString (get_prop (Some detail) ''id''))
              in badNames @ [nullish_default name ''unknown'']
            else badNames)"

text \<open>
  The array \<^verbatim>\<open>badNames\<close> after the loop, when \<^verbatim>\<open>value.pm2\<close> is a record and
  \<^verbatim>\<open>value.pm2.details\<close> an array; nothing otherwise. Both stats parsers have this block.
\<close>

definition pm2_bad :: "json option \<Rightarrow> string list option" where
  "pm2_bad value =
     (if isRecord (get_prop value ''pm2'')
      then (case get_prop (get_prop value ''pm2'') ''details'' of
              Some (JArray details) \<Rightarrow> Some (foldl bad_step [] details)
            | _ \<Rightarrow> None)
      else None)"

text \<open>The record both stats parsers build for a payload with the id \<open>serverId\<close>.\<close>

definition stats_of_payload :: "string \<Rightarrow> json option \<Rightarrow> IncomingServerUpdate" where
  "stats_of_payload serverId value =
     \<lparr>cpuUsage = toNumber (nested value ''cpu'' ''usage_percent''),
      memoryTotal = toNumber (nested value ''memory'' ''total_bytes''),
      memoryUsed = toNumber (nested value ''memory'' ''used_bytes''),
      diskTotal = toNumber (nested value ''disk'' ''total_bytes''),
      diskUsed = toNumber (nested value ''disk'' ''used_bytes''),
      uptime = toString (nested value ''uptime'' ''human''),
      pm2Procs = toNumber (nested value ''pm2'' ''processes''),
      pm2Mem = toNumber (nested value ''pm2'' ''total_memory_bytes''),
      pm2BadCount = map_option length (pm2_bad value),
      pm2BadNames = map_option (take 3) (pm2_bad value),
      supervisorTotal = toNumber (nested value ''supervisor'' ''total''),
      supervisorRunning = toNumber (nested value ''supervisor'' ''running''),
      error = nullish (toString (get_prop value ''error'')) None,
      server_id = serverId\<rparr>"

definition parseServerUpdate :: "json option \<Rightarrow> IncomingServerUpdate option" where
  "parseServerUpdate value =
     (if \<not> isRecord value then None
      else
        case toString (get_prop value ''server_id'') of
          None \<Rightarrow> None
        | Some serverId \<Rightarrow>
           if serverId = [] then None
           else Some (stats_of_payload serverId value))"

definition parseStatsList_step :: "IncomingServerUpdate list \<Rightarrow> json \<Rightarrow> IncomingServerUpdate list" where
  "parseStatsList_step results entry =
     (if \<not> isRecord (Some entry) then results
      else
        case nullish (toString (get_prop (Some entry) ''server_id''))
                               (toString (get_prop (Some entry) ''id'')) of
          None \<Rightarrow> results
        | Some serverId \<Rightarrow>
           if serverId = [] then results
           else results @ [stats_of_payload serverId (Some entry)])"

definition parseStatsList :: "json option \<Rightarrow> IncomingServerUpdate list" where
  "parseStatsList value =
     (if \<not> isRecord value then []
      else case get_prop value ''servers'' of
             Some (JArray servers) \<Rightarrow> foldl parseStatsList_step [] servers
           | _ \<Rightarrow> [])"

definition parseServerList_step :: "IncomingServerListItem list \<Rightarrow> json \<Rightarrow> IncomingServerListItem list" where
  "parseServerList_step results entry =
     (if \<not> isRecord (Some entry) then results
      else
        case toString (get_prop (Some entry) ''server_id'') of
          None \<Rightarrow> results
        | Some serverId \<Rightarrow>
           if serverId = [] then results
           else results @
                  [\<lparr>li_server_id = serverId,
                    li_server_name = toString (get_prop (Some entry) ''server_name''),
                    li_host = toString (get_prop (Some entry) ''host''),
                    li_enabled = nullish_default (toBoolean (get_prop (Some entry) ''enabled'')) True,
                    li_tags = toStringArray (get_prop (Some entry) ''tags'')\<rparr>])"

definition parseServerList :: "json option \<Rightarrow> IncomingServerListItem list" where
  "parseServerList value =
     (case value of
        Some (JArray entries) \<Rightarrow> foldl parseServerList_step [] entries
      | _ \<Rightarrow> [])"

definition parseApiServerList_step :: "IncomingServerListItem list \<Rightarrow> json \<Rightarrow> IncomingServerListItem list" where
  "parseApiServerList_step results entry =
     (if \<not> isRecord (Some entry) then results
      else
        case nullish (toString (get_prop (Some entry) ''id''))
                               (toString (get_prop (Some entry) ''server_id'')) of
          None \<Rightarrow> results
        | Some serverId \<Rightarrow>
           if serverId = [] then results
           else results @
                  [\<lparr>li_server_id = serverId,
                    li_server_name = nullish (toString (get_prop (Some entry) ''name''))
                                             (toString (get_prop (Some entry) ''server_name'')),
                    li_host = toString (get_prop (Some entry) ''host''),
                    li_enabled = nullish_default (toBoolean (get_prop (Some entry) ''enabled'')) True,
                    li_tags = toStringArray (get_prop (Some entry) ''tags'')\<rparr>])"

definition parseApiServerList :: "json option \<Rightarrow> IncomingServerListItem list" where
  "parseApiServerList value =
     (if \<not> isRecord value then []
      else case get_prop value ''servers'' of
             Some (JArray servers) \<Rightarrow> foldl parseApiServerList_step [] servers
           | _ \<Rightarrow> [])"

text \<open>
  The PM2 rule in the words of the specification: an entry of \<^verbatim>\<open>details\<close> is bad when
  its status, lowered, is not \<^verbatim>\<open>online\<close>. The status of an entry is its \<^verbatim>\<open>status\<close>
  property when that is a string.
\<close>

definition spec_status :: "json \<Rightarrow> string option" where
  "spec_status detail = toString (get_prop (Some detail) ''status'')"

definition spec_bad :: "json \<Rightarrow> bool" where
  "spec_bad detail = (case spec_status detail of None \<Rightarrow> False | Some s \<Rightarrow> toLowerCase s \<noteq> ''online'')"

text \<open>The rule as the code has it: the status must also be a non-empty string.\<close>

definition code_bad :: "json \<Rightarrow> bool" where
  "code_bad detail =
     (case spec_status detail of None \<Rightarrow> False | Some s \<Rightarrow> s \<noteq> [] \<and> toLowerCase s \<noteq> ''online'')"

definition bad_name :: "json \<Rightarrow> string" where
  "bad_name detail =
     (case toString (get_prop (Some detail) ''name'') of
        Some n \<Rightarrow> n
      | None \<Rightarrow> (case toString (get_prop (Some detail) ''id'') of Some i \<Rightarrow> i | None \<Rightarrow> ''unknown''))"

text \<open>
  The names of the bad entries of \<^verbatim>\<open>pm2.details\<close> by the rule as the code has it, when
  \<^verbatim>\<open>pm2.details\<close> is an array, and the entries of \<^verbatim>\<open>servers\<close> in a batch response.
\<close>

definition spec_pm2_names :: "json option \<Rightarrow> string list option" where
  "spec_pm2_names value =
     (case get_prop (get_prop value ''pm2'') ''details'' of
        Some (JArray details) \<Rightarrow> Some (map bad_name (filter code_bad details))
      | _ \<Rightarrow> None)"

definition servers_of :: "json option \<Rightarrow> json list" where
  "servers_of value = (case get_prop value ''servers'' of Some (JArray xs) \<Rightarrow> xs | _ \<Rightarrow> [])"


text \<open>An example payload of the push channel.\<close>

definition pm2_example :: json where
  "pm2_example =
     JObject [(''server_id'', JString ''a''),
        (''pm2'', JObject [(''details'', JArray
           [JObject [(''name'', JString ''api''), (''status'', JString ''OnLine'')],
            JObject [(''name'', JString ''w1''), (''status'', JString ''stopped'')],
            JObject [(''id'', JString ''7''), (''status'', JString ''errored'')],
            JObject [(''status'', JString ''stopped'')],
            JObject [(''name'', JString ''w4''), (''status'', JString ''Stopping'')]])])]"

section \<open>PM2 notification throttle\<close>












section \<open>Connection manager: reconnect backoff\<close>

datatype ConnectionState = Connecting | Open | Closed | Error

text \<open>
  The variables of the connection effect: the React state \<^verbatim>\<open>connectionState\<close> and the
  closure variables \<^verbatim>\<open>backoff\<close>, \<^verbatim>\<open>shouldReconnect\<close>, \<^verbatim>\<open>reconnectTimer\<close> (the delay
  the reconnect timer was last armed with, unless it was cleared) and \<^verbatim>\<open>listRefreshTimer\<close>
  (whether the interval is running).
\<close>

record Connection =
  connectionState :: ConnectionState
  backoff :: real
  shouldReconnect :: bool
  reconnectTimer :: "real option"
  listRefreshTimer :: bool

text \<open>
  What happens to a connection: \<^verbatim>\<open>connect()\<close> is called (at the start, or by the
  reconnect timer), the socket opens, reports an error, closes with a code, or the
  effect is torn down.
\<close>

datatype ws_event = Connect | OnOpen | OnError | OnClose int | Cleanup

definition conn_init :: Connection where
  "conn_init =
     \<lparr>connectionState = Connecting, backoff = 1000, shouldReconnect = True,
      reconnectTimer = None, listRefreshTimer = False\<rparr>"

text \<open>\<open>ws_url\<close> is the module constant \<^verbatim>\<open>WS_URL\<close>, fixed when the module loads.\<close>

fun conn_step :: "string \<Rightarrow> Connection \<Rightarrow> ws_event \<Rightarrow> Connection" where
  "conn_step ws_url c Connect =
     (if ws_url = [] then c\<lparr>connectionState := Error\<rparr>
      else c\<lparr>connectionState := Connecting\<rparr>)"
| "conn_step ws_url c OnOpen =
     c\<lparr>connectionState := Open, backoff := 1000, listRefreshTimer := True\<rparr>"
| "conn_step ws_url c OnError = c\<lparr>connectionState := Error\<rparr>"
| "conn_step ws_url c (OnClose code) =
     (let c1 = c\<lparr>listRefreshTimer := False, connectionState := Closed\<rparr>
      in if \<not> shouldReconnect c1 then c1
         else if code = 1000 then c1
         else c1\<lparr>reconnectTimer := Some (backoff c1),
                 backoff := min (backoff c1 * 1.6) 15000\<rparr>)"
| "conn_step ws_url c Cleanup =
     c\<lparr>shouldReconnect := False, reconnectTimer := None, listRefreshTimer := False\<rparr>"

definition conn_run :: "string \<Rightarrow> Connection \<Rightarrow> ws_event list \<Rightarrow> Connection" where
  "conn_run ws_url c events = foldl (conn_step ws_url) c events"

text \<open>The delays of the reconnect timers armed while a list of events is handled.\<close>

fun armed_delays :: "string \<Rightarrow> Connection \<Rightarrow> ws_event list \<Rightarrow> real list" where
  "armed_delays ws_url c [] = []"
| "armed_delays ws_url c (OnClose code # events) =
     (if shouldReconnect c \<and> code \<noteq> 1000 then [backoff c] else [])
       @ armed_delays ws_url (conn_step ws_url c (OnClose code)) events"
| "armed_delays ws_url c (e # events) = armed_delays ws_url (conn_step ws_url c e) events"

section \<open>Notions used to state the properties\<close>

text \<open>
  A field after a merge, given what the update carried for it and what the entry had:
  an update without a value keeps the field, an update with a value overwrites it.
\<close>

definition kept_or_overwritten :: "'a option \<Rightarrow> 'a option \<Rightarrow> 'a option \<Rightarrow> bool" where
  "kept_or_overwritten incoming before after =
     (case incoming of None \<Rightarrow> after = before | Some v \<Rightarrow> after = Some v)"

text \<open>The last element of a list with a given key, which is what a \<^verbatim>\<open>Map\<close> built from the list holds.\<close>

definition last_with :: "('a \<Rightarrow> 'k) \<Rightarrow> 'k \<Rightarrow> 'a list \<Rightarrow> 'a option" where
  "last_with f k xs = find (\<lambda>x. f x = k) (rev xs)"

text \<open>Example values: an update that carries nothing, and a server just listed.\<close>

definition blank_update :: "string \<Rightarrow> IncomingServerUpdate" where
  "blank_update sid =
     \<lparr>cpuUsage = None, memoryTotal = None, memoryUsed = None, diskTotal = None,
      diskUsed = None, uptime = None, pm2Procs = None, pm2Mem = None, pm2BadCount = None,
      pm2BadNames = None, supervisorTotal = None, supervisorRunning = None, error = None,
      server_id = sid\<rparr>"

definition blank_entry :: "string \<Rightarrow> ServerEntry" where
  "blank_entry sid =
     \<lparr>entry_id = sid, name = sid, host = ''--'', enabled = True, tags = [],
      stats = None, lastUpdate = None\<rparr>"

text \<open>A list item that only names a server.\<close>

definition blank_item :: "string \<Rightarrow> IncomingServerListItem" where
  "blank_item sid =
     \<lparr>li_server_id = sid, li_server_name = None, li_host = None, li_enabled = True,
      li_tags = []\<rparr>"

text \<open>
  The clock readings of a history, and the registries in which every entry that has
  stats has a timestamp taken from a set of readings.
\<close>

definition clock_readings :: "registry_op list \<Rightarrow> real list" where
  "clock_readings ops = concat (map op_times ops)"

definition stamped :: "real set \<Rightarrow> ServerEntry list \<Rightarrow> bool" where
  "stamped T reg = (\<forall>e\<in>set reg. stats e \<noteq> None \<longrightarrow> (\<exists>t\<in>T. lastUpdate e = Some t))"


text \<open>
  The backoff is between its floor and its ceiling, and at its floor while the
  connection is open.
\<close>

definition backoff_ok :: "Connection \<Rightarrow> bool" where
  "backoff_ok c =
     (1000 \<le> backoff c \<and> backoff c \<le> 15000 \<and> (connectionState c = Open \<longrightarrow> backoff c = 1000))"

section \<open>Properties of \<^verbatim>\<open>chunk\<close>\<close>

lemma drop_take_app: "drop i (take (i + n) xs) @ drop (i + n) xs = drop i xs"
  by (metis append_take_drop_id drop_drop drop_take add.commute diff_add_inverse2)

lemma chunk_loop_concat:
  "concat (chunk_loop items n i pages) = concat pages @ (if 0 < n then drop i items else [])"
proof (induction items n i pages rule: chunk_loop.induct)
  case (1 items n i pages)
  show ?case
  proof (cases "0 < n \<and> i < length items")
    case True
    then show ?thesis
      using 1 by (subst chunk_loop.simps) (simp add: slice_def drop_take_app)
  next
    case False
    then show ?thesis by (subst chunk_loop.simps) auto
  qed
qed

lemma chunk_loop_pages:
  "0 < n \<Longrightarrow> \<forall>p\<in>set pages. length p = n \<Longrightarrow>
   (\<forall>k. Suc k < length (chunk_loop items n i pages) \<longrightarrow> length (chunk_loop items n i pages ! k) = n) \<and>
   (\<forall>p\<in>set (chunk_loop items n i pages). p \<noteq> [] \<and> length p \<le> n)"
proof (induction items n i pages rule: chunk_loop.induct)
  case (1 items n i pages)
  let ?new = "slice items i (i + n)"
  show ?case
  proof (cases "i < length items")
    case False
    then have "chunk_loop items n i pages = pages"
      by (subst chunk_loop.simps) simp
    with 1 show ?thesis by auto
  next
    case True
    then have unf: "chunk_loop items n i pages = chunk_loop items n (i + n) (pages @ [?new])"
      using 1(2) by (subst chunk_loop.simps) simp
    show ?thesis
    proof (cases "i + n \<le> length items")
      case True
      then have "length ?new = n" by (simp add: slice_def)
      with 1 \<open>i < length items\<close> show ?thesis unfolding unf by auto
    next
      case False
      then have stop: "chunk_loop items n (i + n) (pages @ [?new]) = pages @ [?new]"
        by (subst chunk_loop.simps) simp
      have len: "length ?new = length items - i" using False by (simp add: slice_def)
      show ?thesis unfolding unf stop using 1(2,3) True False len
        by (auto simp: nth_append)
    qed
  qed
qed

lemma chunk_loop_empty: "chunk_loop [] n 0 [] = []"
  by (subst chunk_loop.simps) simp

lemma chunk_loop_nonempty: "0 < n \<Longrightarrow> items \<noteq> [] \<Longrightarrow> chunk_loop items n 0 [] \<noteq> []"
  using chunk_loop_concat [of items n 0 "[]"] by auto

lemma chunk_loop_seven:
  assumes "length items = 7"
  shows "map length (chunk_loop items 3 0 []) = [3, 3, 1]"
proof -
  have "chunk_loop items 3 0 [] = chunk_loop items 3 3 [slice items 0 3]"
    using assms by (subst chunk_loop.simps) simp
  also have "\<dots> = chunk_loop items 3 6 [slice items 0 3, slice items 3 6]"
    using assms by (subst chunk_loop.simps) simp
  also have "\<dots> = chunk_loop items 3 9 [slice items 0 3, slice items 3 6, slice items 6 9]"
    using assms by (subst chunk_loop.simps) simp
  also have "\<dots> = [slice items 0 3, slice items 3 6, slice items 6 9]"
    using assms by (subst chunk_loop.simps) simp
  finally show ?thesis using assms by (simp add: slice_def)
qed

text \<open>
  C8. For a positive page size, \<^verbatim>\<open>chunk\<close> cuts the list, in its order, into consecutive
  pages: the pages put back together are the list, every page but the last has exactly
  \<open>pageSize\<close> elements, the last has at most \<open>pageSize\<close> and, unless the list is empty,
  at least one. There is always at least one page: seven entries with page size 3 give
  pages of sizes 3, 3 and 1, and the empty list gives exactly one empty page.
\<close>

theorem chunk_partitions:
  assumes "0 < pageSize"
  shows "chunk items pageSize \<noteq> []
    \<and> concat (chunk items pageSize) = items
    \<and> (\<forall>k. Suc k < length (chunk items pageSize)
           \<longrightarrow> length (chunk items pageSize ! k) = nat pageSize)
    \<and> (\<forall>p\<in>set (chunk items pageSize). length p \<le> nat pageSize)
    \<and> (items \<noteq> [] \<longrightarrow> [] \<notin> set (chunk items pageSize))
    \<and> (items = [] \<longrightarrow> chunk items pageSize = [[]])
    \<and> (length items = 7 \<and> pageSize = 3 \<longrightarrow> map length (chunk items pageSize) = [3, 3, 1])"
proof (cases "items = []")
  case True
  then show ?thesis using assms by (simp add: chunk_def chunk_loop_empty)
next
  case False
  have n: "0 < nat pageSize" using assms by simp
  have ne: "chunk_loop items (nat pageSize) 0 [] \<noteq> []"
    by (rule chunk_loop_nonempty [OF n False])
  have eq: "chunk items pageSize = chunk_loop items (nat pageSize) 0 []"
    using assms ne by (simp add: chunk_def Let_def)
  have c: "concat (chunk items pageSize) = items"
    unfolding eq using n by (simp add: chunk_loop_concat)
  have p: "(\<forall>k. Suc k < length (chunk items pageSize)
             \<longrightarrow> length (chunk items pageSize ! k) = nat pageSize)
        \<and> (\<forall>p\<in>set (chunk items pageSize). p \<noteq> [] \<and> length p \<le> nat pageSize)"
    unfolding eq using chunk_loop_pages [OF n, of "[]" items 0] by simp
  have s: "length items = 7 \<and> pageSize = 3 \<longrightarrow> map length (chunk items pageSize) = [3, 3, 1]"
  proof
    assume a: "length items = 7 \<and> pageSize = 3"
    then have "nat pageSize = 3" by simp
    with a show "map length (chunk items pageSize) = [3, 3, 1]"
      unfolding eq by (simp add: chunk_loop_seven)
  qed
  from ne eq c p s False show ?thesis by auto
qed

theorem chunk_partitions_witness:
  "(0::int) < 3
   \<and> chunk [1, 2, 3, 4, 5, 6, 7 :: nat] 3 \<noteq> []
   \<and> concat (chunk [1, 2, 3, 4, 5, 6, 7 :: nat] 3) = [1, 2, 3, 4, 5, 6, 7]
   \<and> map length (chunk [1, 2, 3, 4, 5, 6, 7 :: nat] 3) = [3, 3, 1]
   \<and> chunk ([] :: nat list) 3 = [[]]"
  using chunk_partitions [of 3 "[1, 2, 3, 4, 5, 6, 7 :: nat]"]
        chunk_partitions [of 3 "[] :: nat list"]
  by simp

section \<open>Properties of the reconciler\<close>

lemma find_append_case:
  "find P (xs @ ys) = (case find P xs of None \<Rightarrow> find P ys | Some x \<Rightarrow> Some x)"
  by (induction xs) auto

lemma js_Map_foldl:
  "foldl (\<lambda>m kv. m(fst kv \<mapsto> snd kv)) m0 (map (\<lambda>x. (f x, x)) xs) k =
     (case find (\<lambda>x. f x = k) (rev xs) of None \<Rightarrow> m0 k | Some x \<Rightarrow> Some x)"
  by (induction xs arbitrary: m0) (auto simp: find_append_case split: option.splits)

lemma js_Map_last_with: "js_Map (map (\<lambda>x. (f x, x)) xs) k = last_with f k xs"
  by (simp add: js_Map_def last_with_def js_Map_foldl split: option.splits)

lemma nullish_kept: "kept_or_overwritten a b (nullish a b)"
  by (simp add: kept_or_overwritten_def nullish_def split: option.splits)

lemma applyServerUpdates_nth:
  "i < length prev \<Longrightarrow> updates \<noteq> [] \<Longrightarrow>
   applyServerUpdates updates ts prev ! i =
     (case last_with server_id (entry_id (prev ! i)) updates of
        None \<Rightarrow> prev ! i
      | Some payload \<Rightarrow>
          (prev ! i)\<lparr>stats := Some
                         \<lparr>cpuUsage = nullish (cpuUsage payload) (stats_field (prev ! i) cpuUsage),
                          memoryTotal = nullish (memoryTotal payload) (stats_field (prev ! i) memoryTotal),
                          memoryUsed = nullish (memoryUsed payload) (stats_field (prev ! i) memoryUsed),
                          diskTotal = nullish (diskTotal payload) (stats_field (prev ! i) diskTotal),
                          diskUsed = nullish (diskUsed payload) (stats_field (prev ! i) diskUsed),
                          uptime = nullish (uptime payload) (stats_field (prev ! i) uptime),
                          pm2Procs = nullish (pm2Procs payload) (stats_field (prev ! i) pm2Procs),
                          pm2Mem = nullish (pm2Mem payload) (stats_field (prev ! i) pm2Mem),
                          pm2BadCount = nullish (pm2BadCount payload) (stats_field (prev ! i) pm2BadCount),
                          pm2BadNames = nullish (pm2BadNames payload) (stats_field (prev ! i) pm2BadNames),
                          supervisorTotal = nullish (supervisorTotal payload) (stats_field (prev ! i) supervisorTotal),
                          supervisorRunning = nullish (supervisorRunning payload) (stats_field (prev ! i) supervisorRunning),
                          error = nullish (error payload) None\<rparr>,
                       lastUpdate := Some ts\<rparr>)"
  by (simp add: applyServerUpdates_def Let_def js_Map_last_with)

lemma last_with_empty: "last_with f k [] = None" by (simp add: last_with_def)

text \<open>
  C1, as the code has it. The update applied to an entry is the last one in the batch
  with the entry's id. For each of the twelve metric fields, an update that carries no
  value leaves the field as it was and an update that carries a value overwrites it.
  The field \<open>error\<close> is different: it always becomes what the update carries, so an
  update without an error clears a known one. An entry without an update in the batch
  is not touched.
\<close>

theorem applyServerUpdates_merge:
  assumes "i < length prev"
  shows "length (applyServerUpdates updates ts prev) = length prev \<and>
    (case last_with server_id (entry_id (prev ! i)) updates of
       None \<Rightarrow> applyServerUpdates updates ts prev ! i = prev ! i
     | Some payload \<Rightarrow>
         (let before = prev ! i; after = applyServerUpdates updates ts prev ! i in
          kept_or_overwritten (cpuUsage payload) (stats_field before cpuUsage) (stats_field after cpuUsage) \<and>
          kept_or_overwritten (memoryTotal payload) (stats_field before memoryTotal) (stats_field after memoryTotal) \<and>
          kept_or_overwritten (memoryUsed payload) (stats_field before memoryUsed) (stats_field after memoryUsed) \<and>
          kept_or_overwritten (diskTotal payload) (stats_field before diskTotal) (stats_field after diskTotal) \<and>
          kept_or_overwritten (diskUsed payload) (stats_field before diskUsed) (stats_field after diskUsed) \<and>
          kept_or_overwritten (uptime payload) (stats_field before uptime) (stats_field after uptime) \<and>
          kept_or_overwritten (pm2Procs payload) (stats_field before pm2Procs) (stats_field after pm2Procs) \<and>
          kept_or_overwritten (pm2Mem payload) (stats_field before pm2Mem) (stats_field after pm2Mem) \<and>
          kept_or_overwritten (pm2BadCount payload) (stats_field before pm2BadCount) (stats_field after pm2BadCount) \<and>
          kept_or_overwritten (pm2BadNames payload) (stats_field before pm2BadNames) (stats_field after pm2BadNames) \<and>
          kept_or_overwritten (supervisorTotal payload) (stats_field before supervisorTotal) (stats_field after supervisorTotal) \<and>
          kept_or_overwritten (supervisorRunning payload) (stats_field before supervisorRunning) (stats_field after supervisorRunning) \<and>
          stats_field after error = error payload))"
proof (cases "updates = []")
  case True
  then show ?thesis by (simp add: applyServerUpdates_def last_with_empty)
next
  case False
  have len: "length (applyServerUpdates updates ts prev) = length prev"
    by (simp add: applyServerUpdates_def Let_def)
  show ?thesis
  proof (cases "last_with server_id (entry_id (prev ! i)) updates")
    case None
    then show ?thesis using applyServerUpdates_nth [OF assms False, of ts] len by simp
  next
    case (Some payload)
    note after = applyServerUpdates_nth [OF assms False, of ts, unfolded Some option.case]
    have f: "\<And>a b c. c = nullish a b \<Longrightarrow> kept_or_overwritten a b c"
      by (simp add: nullish_kept)
    have "kept_or_overwritten (cpuUsage payload) (stats_field (prev ! i) cpuUsage)
            (stats_field (applyServerUpdates updates ts prev ! i) cpuUsage)"
      by (rule f) (simp add: after stats_field_def)
    moreover have "kept_or_overwritten (memoryTotal payload) (stats_field (prev ! i) memoryTotal)
            (stats_field (applyServerUpdates updates ts prev ! i) memoryTotal)"
      by (rule f) (simp add: after stats_field_def)
    moreover have "kept_or_overwritten (memoryUsed payload) (stats_field (prev ! i) memoryUsed)
            (stats_field (applyServerUpdates updates ts prev ! i) memoryUsed)"
      by (rule f) (simp add: after stats_field_def)
    moreover have "kept_or_overwritten (diskTotal payload) (stats_field (prev ! i) diskTotal)
            (stats_field (applyServerUpdates updates ts prev ! i) diskTotal)"
      by (rule f) (simp add: after stats_field_def)
    moreover have "kept_or_overwritten (diskUsed payload) (stats_field (prev ! i) diskUsed)
            (stats_field (applyServerUpdates updates ts prev ! i) diskUsed)"
      by (rule f) (simp add: after stats_field_def)
    moreover have "kept_or_overwritten (uptime payload) (stats_field (prev ! i) uptime)
            (stats_field (applyServerUpdates updates ts prev ! i) uptime)"
      by (rule f) (simp add: after stats_field_def)
    moreover have "kept_or_overwritten (pm2Procs payload) (stats_field (prev ! i) pm2Procs)
            (stats_field (applyServerUpdates updates ts prev ! i) pm2Procs)"
      by (rule f) (simp add: after stats_field_def)
    moreover have "kept_or_overwritten (pm2Mem payload) (stats_field (prev ! i) pm2Mem)
            (stats_field (applyServerUpdates updates ts prev ! i) pm2Mem)"
      by (rule f) (simp add: after stats_field_def)
    moreover have "kept_or_overwritten (pm2BadCount payload) (stats_field (prev ! i) pm2BadCount)
            (stats_field (applyServerUpdates updates ts prev ! i) pm2BadCount)"
      by (rule f) (simp add: after stats_field_def)
    moreover have "kept_or_overwritten (pm2BadNames payload) (stats_field (prev ! i) pm2BadNames)
            (stats_field (applyServerUpdates updates ts prev ! i) pm2BadNames)"
      by (rule f) (simp add: after stats_field_def)
    moreover have "kept_or_overwritten (supervisorTotal payload) (stats_field (prev ! i) supervisorTotal)
            (stats_field (applyServerUpdates updates ts prev ! i) supervisorTotal)"
      by (rule f) (simp add: after stats_field_def)
    moreover have "kept_or_overwritten (supervisorRunning payload) (stats_field (prev ! i) supervisorRunning)
            (stats_field (applyServerUpdates updates ts prev ! i) supervisorRunning)"
      by (rule f) (simp add: after stats_field_def)
    moreover have "stats_field (applyServerUpdates updates ts prev ! i) error = error payload"
      by (simp add: after stats_field_def nullish_def split: option.splits)
    ultimately show ?thesis
      unfolding Some option.case Let_def using len by blast
  qed
qed
text \<open>The scenario of the specification: a known CPU value survives a memory-only update.\<close>

theorem applyServerUpdates_merge_witness:
  "(0::nat) < length [(blank_entry ''a'')\<lparr>stats := Some (no_stats\<lparr>cpuUsage := Some 40\<rparr>)\<rparr>]
   \<and> stats_field
        (applyServerUpdates [(blank_update ''a'')\<lparr>memoryUsed := Some 100, memoryTotal := Some 200\<rparr>] 1000
           [(blank_entry ''a'')\<lparr>stats := Some (no_stats\<lparr>cpuUsage := Some 40\<rparr>)\<rparr>] ! 0) cpuUsage = Some 40
   \<and> stats_field
        (applyServerUpdates [(blank_update ''a'')\<lparr>memoryUsed := Some 100, memoryTotal := Some 200\<rparr>] 1000
           [(blank_entry ''a'')\<lparr>stats := Some (no_stats\<lparr>cpuUsage := Some 40\<rparr>)\<rparr>] ! 0) memoryUsed = Some 100"
  using applyServerUpdates_merge
          [of 0 "[(blank_entry ''a'')\<lparr>stats := Some (no_stats\<lparr>cpuUsage := Some 40\<rparr>)\<rparr>]"
              "[(blank_update ''a'')\<lparr>memoryUsed := Some 100, memoryTotal := Some 200\<rparr>]" 1000]
  by (simp add: last_with_def blank_entry_def blank_update_def no_stats_def
        kept_or_overwritten_def stats_field_def Let_def)

text \<open>
  The claim as stated fails for the field \<open>error\<close>: the update below carries no error,
  the entry has one, and after the merge it is gone.
\<close>

theorem applyServerUpdates_error_counterexample:
  "error (blank_update ''a'') = None
   \<and> stats_field ((blank_entry ''a'')\<lparr>stats := Some (no_stats\<lparr>error := Some ''boom''\<rparr>)\<rparr>) error
       = Some ''boom''
   \<and> stats_field
        (applyServerUpdates [blank_update ''a''] 1000
           [(blank_entry ''a'')\<lparr>stats := Some (no_stats\<lparr>error := Some ''boom''\<rparr>)\<rparr>] ! 0) error
       = None"
  by (simp add: applyServerUpdates_def js_Map_def blank_entry_def blank_update_def no_stats_def
        stats_field_def nullish_def)

lemma find_Some_mem: "find P ys = Some x \<Longrightarrow> x \<in> set ys \<and> P x"
  by (induction ys) (auto split: if_splits)

lemma last_with_Some: "last_with f k xs = Some x \<Longrightarrow> x \<in> set xs \<and> f x = k"
  unfolding last_with_def using find_Some_mem [of "\<lambda>x. f x = k" "rev xs" x] by simp

lemma last_with_None: "last_with f k xs = None \<longleftrightarrow> (\<forall>x\<in>set xs. f x \<noteq> k)"
  unfolding last_with_def by (auto simp: find_None_iff)

lemma last_with_unique:
  assumes "x \<in> set xs" and "\<forall>y\<in>set xs. f y = f x \<longrightarrow> y = x"
  shows "last_with f (f x) xs = Some x"
proof (cases "last_with f (f x) xs")
  case None
  with assms(1) show ?thesis by (auto simp: last_with_None)
next
  case (Some y)
  from last_with_Some [OF Some] assms(2) have "y = x" by simp
  with Some show ?thesis by simp
qed

lemma applyServerList_nth:
  "incoming \<noteq> [] \<Longrightarrow> i < length incoming \<Longrightarrow>
   applyServerList incoming prev ! i =
     \<lparr>entry_id = li_server_id (incoming ! i),
      name = or_string (li_server_name (incoming ! i))
               (or_string (li_host (incoming ! i)) (li_server_id (incoming ! i))),
      host = or_string (li_host (incoming ! i)) ''--'',
      enabled = li_enabled (incoming ! i),
      tags = li_tags (incoming ! i),
      stats = (case last_with entry_id (li_server_id (incoming ! i)) prev of
                 None \<Rightarrow> None | Some e \<Rightarrow> stats e),
      lastUpdate = (case last_with entry_id (li_server_id (incoming ! i)) prev of
                 None \<Rightarrow> None | Some e \<Rightarrow> lastUpdate e)\<rparr>"
  by (simp add: applyServerList_def Let_def js_Map_last_with)

lemma applyServerList_ids:
  "incoming \<noteq> [] \<Longrightarrow> map entry_id (applyServerList incoming prev) = map li_server_id incoming"
  by (simp add: applyServerList_def Let_def)

lemma applyServerList_length:
  "incoming \<noteq> [] \<Longrightarrow> length (applyServerList incoming prev) = length incoming"
  by (simp add: applyServerList_def Let_def)

text \<open>
  C2. \<^verbatim>\<open>applyServerList\<close> with an empty list leaves the registry as it is. With a
  non-empty list the registry becomes the incoming items, in their order: the ids are
  the incoming ids, each new entry takes its stats and timestamp from the entry of the
  old registry with the same id (the last such entry, should the old registry repeat an
  id) and has none when there is no such entry, so an old entry whose id is unique
  survives with its stats and timestamp, and an old entry whose id is not incoming is
  gone.
\<close>

theorem applyServerList_snapshot:
  "(incoming = [] \<longrightarrow> applyServerList incoming prev = prev)
   \<and> (incoming \<noteq> [] \<longrightarrow>
        map entry_id (applyServerList incoming prev) = map li_server_id incoming
        \<and> (\<forall>i<length incoming.
              enabled (applyServerList incoming prev ! i) = li_enabled (incoming ! i)
              \<and> tags (applyServerList incoming prev ! i) = li_tags (incoming ! i)
              \<and> (case last_with entry_id (li_server_id (incoming ! i)) prev of
                    None \<Rightarrow> stats (applyServerList incoming prev ! i) = None
                            \<and> lastUpdate (applyServerList incoming prev ! i) = None
                  | Some e \<Rightarrow> stats (applyServerList incoming prev ! i) = stats e
                            \<and> lastUpdate (applyServerList incoming prev ! i) = lastUpdate e))
        \<and> (\<forall>e\<in>set prev. \<forall>e'\<in>set (applyServerList incoming prev).
              entry_id e' = entry_id e \<and> (\<forall>e2\<in>set prev. entry_id e2 = entry_id e \<longrightarrow> e2 = e)
              \<longrightarrow> stats e' = stats e \<and> lastUpdate e' = lastUpdate e)
        \<and> (\<forall>e\<in>set prev. entry_id e \<notin> li_server_id ` set incoming
              \<longrightarrow> entry_id e \<notin> entry_id ` set (applyServerList incoming prev)))"
proof (cases "incoming = []")
  case True
  then show ?thesis by (simp add: applyServerList_def)
next
  case False
  have ids: "map entry_id (applyServerList incoming prev) = map li_server_id incoming"
    by (rule applyServerList_ids [OF False])
  have fields: "\<forall>i<length incoming.
              enabled (applyServerList incoming prev ! i) = li_enabled (incoming ! i)
              \<and> tags (applyServerList incoming prev ! i) = li_tags (incoming ! i)
              \<and> (case last_with entry_id (li_server_id (incoming ! i)) prev of
                    None \<Rightarrow> stats (applyServerList incoming prev ! i) = None
                            \<and> lastUpdate (applyServerList incoming prev ! i) = None
                  | Some e \<Rightarrow> stats (applyServerList incoming prev ! i) = stats e
                            \<and> lastUpdate (applyServerList incoming prev ! i) = lastUpdate e)"
    by (simp add: applyServerList_nth [OF False] split: option.splits)
  have carried: "\<forall>e\<in>set prev. \<forall>e'\<in>set (applyServerList incoming prev).
              entry_id e' = entry_id e \<and> (\<forall>e2\<in>set prev. entry_id e2 = entry_id e \<longrightarrow> e2 = e)
              \<longrightarrow> stats e' = stats e \<and> lastUpdate e' = lastUpdate e"
  proof (intro ballI impI)
    fix e e'
    assume e: "e \<in> set prev" and e': "e' \<in> set (applyServerList incoming prev)"
      and h: "entry_id e' = entry_id e \<and> (\<forall>e2\<in>set prev. entry_id e2 = entry_id e \<longrightarrow> e2 = e)"
    from e' obtain i where i: "i < length incoming" and at: "e' = applyServerList incoming prev ! i"
      unfolding in_set_conv_nth applyServerList_length [OF False] by auto
    have "entry_id e' = li_server_id (incoming ! i)"
      unfolding at by (simp add: applyServerList_nth [OF False i])
    with h have k: "li_server_id (incoming ! i) = entry_id e" by simp
    have "last_with entry_id (entry_id e) prev = Some e"
      using h by (intro last_with_unique [OF e]) simp
    then show "stats e' = stats e \<and> lastUpdate e' = lastUpdate e"
      unfolding at by (simp add: applyServerList_nth [OF False i] k)
  qed
  have dropped: "\<forall>e\<in>set prev. entry_id e \<notin> li_server_id ` set incoming
              \<longrightarrow> entry_id e \<notin> entry_id ` set (applyServerList incoming prev)"
    using arg_cong [OF ids, of set] by simp
  show ?thesis
    using False ids fields carried dropped by (intro conjI impI) simp_all
qed


theorem applyServerList_snapshot_witness:
  "map entry_id
     (applyServerList [blank_item ''a'', blank_item ''c'']
        [(blank_entry ''a'')\<lparr>stats := Some no_stats, lastUpdate := Some 1000\<rparr>, blank_entry ''b''])
     = [''a'', ''c'']
   \<and> stats (applyServerList [blank_item ''a'', blank_item ''c'']
        [(blank_entry ''a'')\<lparr>stats := Some no_stats, lastUpdate := Some 1000\<rparr>, blank_entry ''b''] ! 0)
       = Some no_stats
   \<and> lastUpdate (applyServerList [blank_item ''a'', blank_item ''c'']
        [(blank_entry ''a'')\<lparr>stats := Some no_stats, lastUpdate := Some 1000\<rparr>, blank_entry ''b''] ! 0)
       = Some 1000
   \<and> stats (applyServerList [blank_item ''a'', blank_item ''c'']
        [(blank_entry ''a'')\<lparr>stats := Some no_stats, lastUpdate := Some 1000\<rparr>, blank_entry ''b''] ! 1)
       = None
   \<and> applyServerList []
        [(blank_entry ''a'')\<lparr>stats := Some no_stats, lastUpdate := Some 1000\<rparr>, blank_entry ''b'']
       = [(blank_entry ''a'')\<lparr>stats := Some no_stats, lastUpdate := Some 1000\<rparr>, blank_entry ''b'']"
  using applyServerList_snapshot
          [of "[blank_item ''a'', blank_item ''c'']"
              "[(blank_entry ''a'')\<lparr>stats := Some no_stats, lastUpdate := Some 1000\<rparr>, blank_entry ''b'']"]
        applyServerList_snapshot
          [of "[]"
              "[(blank_entry ''a'')\<lparr>stats := Some no_stats, lastUpdate := Some 1000\<rparr>, blank_entry ''b'']"]
  by (simp add: last_with_def blank_item_def blank_entry_def All_less_Suc)

text \<open>
  C9, as the code has it. A stats batch and a server error keep the list of ids as it
  is, so they keep the ids pairwise distinct. A non-empty list snapshot makes the ids of
  the registry the ids of the incoming items, repeats included, and no parser removes a
  repeated id: the registry after a snapshot has distinct ids when the incoming ids are
  distinct.
\<close>

theorem registry_ids:
  "map entry_id (applyServerUpdates updates ts reg) = map entry_id reg
   \<and> map entry_id (applyServerError payload ts reg) = map entry_id reg
   \<and> map entry_id (applyServerList incoming reg)
       = (if incoming = [] then map entry_id reg else map li_server_id incoming)
   \<and> (distinct (map entry_id reg) \<longrightarrow>
        distinct (map entry_id (applyServerUpdates updates ts reg))
        \<and> distinct (map entry_id (applyServerError payload ts reg))
        \<and> (distinct (map li_server_id incoming)
             \<longrightarrow> distinct (map entry_id (applyServerList incoming reg))))"
proof -
  have u: "map entry_id (applyServerUpdates updates ts reg) = map entry_id reg"
    by (simp add: applyServerUpdates_def Let_def split: option.splits)
  have e: "map entry_id (applyServerError payload ts reg) = map entry_id reg"
    by (simp add: applyServerError_def)
  have l: "map entry_id (applyServerList incoming reg)
       = (if incoming = [] then map entry_id reg else map li_server_id incoming)"
    by (simp add: applyServerList_def Let_def)
  show ?thesis unfolding u e l by simp
qed

theorem registry_ids_witness:
  "distinct (map entry_id [blank_entry ''a'', blank_entry ''b''])
   \<and> distinct (map li_server_id [blank_item ''b'', blank_item ''c''])
   \<and> distinct (map entry_id
        (applyServerUpdates [blank_update ''a''] 1000 [blank_entry ''a'', blank_entry ''b'']))
   \<and> distinct (map entry_id
        (applyServerList [blank_item ''b'', blank_item ''c''] [blank_entry ''a'', blank_entry ''b'']))"
  using registry_ids
          [of "[blank_update ''a'']" 1000 "[blank_entry ''a'', blank_entry ''b'']"
              "\<lparr>err_server_id = ''a'', err_error = None\<rparr>"
              "[blank_item ''b'', blank_item ''c'']"]
  by (simp add: blank_entry_def blank_item_def)

text \<open>
  The claim as stated fails for a list frame that repeats a \<^verbatim>\<open>server_id\<close>: the empty
  registry has distinct ids, and after the snapshot two entries have the id \<^verbatim>\<open>a\<close>.
\<close>

theorem applyServerList_duplicate_counterexample:
  "distinct (map entry_id ([] :: ServerEntry list))
   \<and> \<not> distinct (map entry_id
          (applyServerList
             (parseServerList
                (Some (JArray [JObject [(''server_id'', JString ''a'')],
                               JObject [(''server_id'', JString ''a'')]])))
             []))"
  by (simp add: applyServerList_def parseServerList_def parseServerList_step_def Let_def)

lemma stamped_list:
  assumes "stamped T reg"
  shows "stamped T (applyServerList incoming reg)"
proof (cases "incoming = []")
  case True
  with assms show ?thesis by (simp add: applyServerList_def)
next
  case False
  show ?thesis
    unfolding stamped_def
  proof (intro ballI impI)
    fix e' assume e': "e' \<in> set (applyServerList incoming reg)" and st: "stats e' \<noteq> None"
    from e' obtain i where i: "i < length incoming" and at: "e' = applyServerList incoming reg ! i"
      unfolding in_set_conv_nth applyServerList_length [OF False] by auto
    show "\<exists>t\<in>T. lastUpdate e' = Some t"
    proof (cases "last_with entry_id (li_server_id (incoming ! i)) reg")
      case None
      then have "stats e' = None"
        unfolding at by (simp add: applyServerList_nth [OF False i])
      with st show ?thesis by simp
    next
      case (Some e)
      from last_with_Some [OF Some] have "e \<in> set reg" by simp
      moreover have "stats e' = stats e" "lastUpdate e' = lastUpdate e"
        unfolding at by (simp_all add: applyServerList_nth [OF False i] Some)
      ultimately show ?thesis using assms st unfolding stamped_def by auto
    qed
  qed
qed

lemma stamped_updates:
  assumes "stamped T reg" and "ts \<in> T"
  shows "stamped T (applyServerUpdates updates ts reg)"
proof (cases "updates = []")
  case True
  with assms show ?thesis by (simp add: applyServerUpdates_def)
next
  case False
  have len: "length (applyServerUpdates updates ts reg) = length reg"
    by (simp add: applyServerUpdates_def Let_def)
  show ?thesis
    unfolding stamped_def
  proof (intro ballI impI)
    fix e' assume e': "e' \<in> set (applyServerUpdates updates ts reg)" and st: "stats e' \<noteq> None"
    from e' obtain i where i: "i < length reg" and at: "e' = applyServerUpdates updates ts reg ! i"
      unfolding in_set_conv_nth len by auto
    show "\<exists>t\<in>T. lastUpdate e' = Some t"
    proof (cases "last_with server_id (entry_id (reg ! i)) updates")
      case None
      then have "e' = reg ! i" unfolding at by (simp add: applyServerUpdates_nth [OF i False])
      with i assms(1) st show ?thesis unfolding stamped_def by auto
    next
      case (Some payload)
      then have "lastUpdate e' = Some ts"
        unfolding at by (simp add: applyServerUpdates_nth [OF i False])
      with assms(2) show ?thesis by auto
    qed
  qed
qed

lemma stamped_error:
  assumes "stamped T reg" and "ts \<in> T"
  shows "stamped T (applyServerError payload ts reg)"
  unfolding stamped_def
proof (intro ballI impI)
  fix e' assume e': "e' \<in> set (applyServerError payload ts reg)" and st: "stats e' \<noteq> None"
  from e' obtain item where item: "item \<in> set reg"
    and at: "e' = (if entry_id item = err_server_id payload
        then item\<lparr>stats := Some ((case stats item of None \<Rightarrow> no_stats | Some st \<Rightarrow> st)
                                  \<lparr>error := Some (or_string (err_error payload) ''Server error'')\<rparr>),
                  lastUpdate := Some ts\<rparr>
        else item)"
    unfolding applyServerError_def set_map by (rule imageE)
  show "\<exists>t\<in>T. lastUpdate e' = Some t"
  proof (cases "entry_id item = err_server_id payload")
    case True
    with at have "lastUpdate e' = Some ts" by simp
    with assms(2) show ?thesis by auto
  next
    case False
    with at have "e' = item" by simp
    with item assms(1) st show ?thesis unfolding stamped_def by auto
  qed
qed

lemma stamped_op:
  "stamped T reg \<Longrightarrow> set (op_times op) \<subseteq> T \<Longrightarrow> stamped T (apply_op reg op)"
  by (cases op) (simp_all add: stamped_list stamped_updates stamped_error)

lemma stamped_foldl:
  "stamped T reg \<Longrightarrow> set (clock_readings ops) \<subseteq> T \<Longrightarrow> stamped T (foldl apply_op reg ops)"
  by (induction ops arbitrary: reg) (simp_all add: clock_readings_def stamped_op)

lemma stamped_run_ops: "stamped (set (clock_readings ops)) (run_ops ops)"
  unfolding run_ops_def by (rule stamped_foldl) (simp_all add: stamped_def)

lemma getStatus_stale_iff:
  assumes "stats e = Some st"
  shows "key (getStatus e now) = Stale \<longleftrightarrow>
           enabled e \<and> \<not> spec_error_set st \<and> age_gt (entry_age e now) 60000"
  using assms by (simp add: getStatus_def spec_error_set_def truthy_string_def Let_def split: option.splits)

text \<open>
  C10. In a registry reached from the empty one by list snapshots, stats batches and
  server errors, an entry that has stats has a timestamp, and the timestamp is one of
  the clock readings of the history. When no clock reading is 0 (the clock counts the
  milliseconds since 1970), the age of such an entry is the finite \<open>now - lastUpdate\<close>,
  never the infinite fallback, so that \<^verbatim>\<open>getStatus\<close> calls it stale exactly when that
  difference exceeds 60000, and \<^verbatim>\<open>shouldAlert\<close> alerts when it exceeds the ceiling.
\<close>

theorem stats_have_lastUpdate:
  assumes "e \<in> set (run_ops ops)" and "stats e = Some st"
  shows "\<exists>t. lastUpdate e = Some t \<and> t \<in> set (clock_readings ops)
           \<and> (0 \<notin> set (clock_readings ops) \<longrightarrow>
                entry_age e now = Finite (now - t)
                \<and> (key (getStatus e now) = Stale
                     \<longleftrightarrow> enabled e \<and> \<not> spec_error_set st \<and> 60000 < now - t)
                \<and> (enabled e \<and> \<not> spec_error_set st \<and> ALERT_STALE_MS cfg < now - t
                     \<longrightarrow> shouldAlert cfg e now))"
proof -
  from stamped_run_ops [of ops] assms obtain t
    where t: "lastUpdate e = Some t" "t \<in> set (clock_readings ops)"
    unfolding stamped_def by auto
  have "entry_age e now = Finite (now - t)
                \<and> (key (getStatus e now) = Stale
                     \<longleftrightarrow> enabled e \<and> \<not> spec_error_set st \<and> 60000 < now - t)
                \<and> (enabled e \<and> \<not> spec_error_set st \<and> ALERT_STALE_MS cfg < now - t
                     \<longrightarrow> shouldAlert cfg e now)"
    if "0 \<notin> set (clock_readings ops)"
  proof -
    from that t have "t \<noteq> 0" by auto
    with t have age: "entry_age e now = Finite (now - t)" by (simp add: entry_age_def)
    have "key (getStatus e now) = Stale
                     \<longleftrightarrow> enabled e \<and> \<not> spec_error_set st \<and> 60000 < now - t"
      by (simp add: getStatus_stale_iff [OF assms(2)] age)
    moreover have "enabled e \<and> \<not> spec_error_set st \<and> ALERT_STALE_MS cfg < now - t
                     \<longrightarrow> shouldAlert cfg e now"
      using assms(2) by (simp add: shouldAlert_def age spec_error_set_def truthy_string_def split: option.splits)
    ultimately show ?thesis using age by simp
  qed
  with t show ?thesis by blast
qed

theorem stats_have_lastUpdate_witness:
  "(blank_entry ''a'')\<lparr>stats := Some no_stats, lastUpdate := Some 1000\<rparr>
     \<in> set (run_ops [ListSnapshot [blank_item ''a''], StatsUpdates [blank_update ''a''] 1000])
   \<and> 0 \<notin> set (clock_readings [ListSnapshot [blank_item ''a''], StatsUpdates [blank_update ''a''] 1000])
   \<and> entry_age ((blank_entry ''a'')\<lparr>stats := Some no_stats, lastUpdate := Some 1000\<rparr>) 5000
       = Finite 4000"
  using stats_have_lastUpdate
          [of "(blank_entry ''a'')\<lparr>stats := Some no_stats, lastUpdate := Some 1000\<rparr>"
              "[ListSnapshot [blank_item ''a''], StatsUpdates [blank_update ''a''] 1000]"
              no_stats 5000 default_alerts]
  by (simp add: run_ops_def clock_readings_def applyServerList_def applyServerUpdates_def
        js_Map_def blank_entry_def blank_item_def blank_update_def no_stats_def
        or_string_def nullish_def stats_field_def Let_def)

section \<open>Properties of the evaluators\<close>
















section \<open>Properties of the stats parsers\<close>

lemma get_prop_isRecord: "get_prop v k = Some x \<Longrightarrow> isRecord v"
  by (cases "(v, k)" rule: get_prop.cases) simp_all

lemma get_prop_not_record: "\<not> isRecord v \<Longrightarrow> get_prop v k = None"
  by (cases "(v, k)" rule: get_prop.cases) simp_all

lemma bad_step_eq:
  "bad_step badNames detail = (if code_bad detail then badNames @ [bad_name detail] else badNames)"
proof (cases "isRecord (Some detail)")
  case False
  then have "get_prop (Some detail) ''status'' = None" by (rule get_prop_not_record)
  then show ?thesis using False by (simp add: bad_step_def code_bad_def spec_status_def)
next
  case True
  then show ?thesis
    by (simp add: bad_step_def code_bad_def spec_status_def bad_name_def nullish_def
          nullish_default_def Let_def split: option.splits)
qed

lemma foldl_bad_step:
  "foldl bad_step acc details = acc @ map bad_name (filter code_bad details)"
  by (induction details arbitrary: acc) (simp_all add: bad_step_eq)

lemma pm2_bad_spec: "pm2_bad value = spec_pm2_names value"
proof (cases "isRecord (get_prop value ''pm2'')")
  case True
  then show ?thesis
    by (simp add: pm2_bad_def spec_pm2_names_def foldl_bad_step split: option.splits json.splits)
next
  case False
  then have "get_prop (get_prop value ''pm2'') ''details'' = None" by (rule get_prop_not_record)
  with False show ?thesis by (simp add: pm2_bad_def spec_pm2_names_def)
qed

lemma stats_of_payload_pm2:
  "pm2BadCount (stats_of_payload sid value) = map_option length (spec_pm2_names value)
   \<and> pm2BadNames (stats_of_payload sid value) = map_option (take 3) (spec_pm2_names value)
   \<and> server_id (stats_of_payload sid value) = sid"
  by (simp add: stats_of_payload_def pm2_bad_spec)

lemma parseStatsList_step_set:
  "u \<in> set (parseStatsList_step results entry) \<Longrightarrow>
   u \<in> set results \<or> (\<exists>sid. u = stats_of_payload sid (Some entry))"
  by (auto simp: parseStatsList_step_def split: if_splits option.splits)

lemma parseStatsList_foldl_set:
  "u \<in> set (foldl parseStatsList_step results entries) \<Longrightarrow>
   u \<in> set results \<or> (\<exists>entry\<in>set entries. \<exists>sid. u = stats_of_payload sid (Some entry))"
proof (induction entries arbitrary: results)
  case Nil
  then show ?case by simp
next
  case (Cons entry entries)
  from Cons.IH [of "parseStatsList_step results entry"] Cons.prems
  have "u \<in> set (parseStatsList_step results entry)
        \<or> (\<exists>entry\<in>set entries. \<exists>sid. u = stats_of_payload sid (Some entry))"
    by simp
  then show ?case using parseStatsList_step_set [of u results entry] by auto
qed

lemma parseStatsList_servers:
  "parseStatsList v =
     (if isRecord v then foldl parseStatsList_step [] (servers_of v) else [])"
  by (simp add: parseStatsList_def servers_of_def split: option.split json.split)

lemma parseStatsList_set:
  assumes "u \<in> set (parseStatsList v)"
  shows "\<exists>entry\<in>set (servers_of v). \<exists>sid. u = stats_of_payload sid (Some entry)"
proof -
  have "u \<in> set (foldl parseStatsList_step [] (servers_of v))"
    using assms by (simp add: parseStatsList_servers split: if_splits)
  from parseStatsList_foldl_set [OF this] show ?thesis by simp
qed

text \<open>
  C5, as the code has it. Both stats parsers derive the PM2 fields by one rule: an entry
  of \<^verbatim>\<open>pm2.details\<close> is bad when it is an object whose \<^verbatim>\<open>status\<close> is a non-empty string
  that, lowered, is not \<^verbatim>\<open>online\<close>; an entry without a status, or with an empty one, is
  not counted. \<^verbatim>\<open>pm2BadCount\<close> is the number of bad entries and \<^verbatim>\<open>pm2BadNames\<close> the
  first three of their names, the name of an entry being its \<^verbatim>\<open>name\<close> when that is a
  string, else its \<^verbatim>\<open>id\<close> when that is a string, else \<^verbatim>\<open>unknown\<close>. Both fields are absent
  when \<^verbatim>\<open>pm2.details\<close> is not an array. The batch parser gives for a single server what
  the push parser gives for it.
\<close>

theorem pm2_bad_rule:
  "(\<forall>u. parseServerUpdate value = Some u \<longrightarrow>
        pm2BadCount u = map_option length (spec_pm2_names value)
        \<and> pm2BadNames u = map_option (take 3) (spec_pm2_names value))
   \<and> (\<forall>u\<in>set (parseStatsList value). \<exists>entry\<in>set (servers_of value).
        pm2BadCount u = map_option length (spec_pm2_names (Some entry))
        \<and> pm2BadNames u = map_option (take 3) (spec_pm2_names (Some entry)))
   \<and> (\<forall>u. parseServerUpdate (Some entry) = Some u \<longrightarrow>
        parseStatsList (Some (JObject [(''servers'', JArray [entry])])) = [u])"
proof -
  have a: "\<forall>u. parseServerUpdate value = Some u \<longrightarrow>
        pm2BadCount u = map_option length (spec_pm2_names value)
        \<and> pm2BadNames u = map_option (take 3) (spec_pm2_names value)"
    by (auto simp: parseServerUpdate_def stats_of_payload_pm2 split: if_splits option.splits)
  have b: "\<forall>u\<in>set (parseStatsList value). \<exists>entry\<in>set (servers_of value).
        pm2BadCount u = map_option length (spec_pm2_names (Some entry))
        \<and> pm2BadNames u = map_option (take 3) (spec_pm2_names (Some entry))"
    using parseStatsList_set [of _ "value"] stats_of_payload_pm2 by metis
  have c: "\<forall>u. parseServerUpdate (Some entry) = Some u \<longrightarrow>
        parseStatsList (Some (JObject [(''servers'', JArray [entry])])) = [u]"
    by (auto simp: parseServerUpdate_def parseStatsList_def parseStatsList_step_def nullish_def
          split: if_splits option.splits)
  from a b c show ?thesis by blast
qed

lemma pm2_example_names:
  "spec_pm2_names (Some pm2_example) = Some [''w1'', ''7'', ''unknown'', ''w4'']"
  by (simp add: pm2_example_def spec_pm2_names_def code_bad_def spec_status_def bad_name_def
        toLowerCase_def lower_char_def upper_to_lower_def)

lemma pm2_example_parsed:
  "parseServerUpdate (Some pm2_example) = Some (stats_of_payload ''a'' (Some pm2_example))"
  by (simp add: pm2_example_def parseServerUpdate_def)

theorem pm2_bad_rule_witness:
  "parseServerUpdate (Some pm2_example) = Some (stats_of_payload ''a'' (Some pm2_example))
   \<and> spec_pm2_names (Some pm2_example) = Some [''w1'', ''7'', ''unknown'', ''w4'']
   \<and> pm2BadCount (stats_of_payload ''a'' (Some pm2_example)) = Some 4
   \<and> pm2BadNames (stats_of_payload ''a'' (Some pm2_example)) = Some [''w1'', ''7'', ''unknown'']"
  using pm2_bad_rule [of "Some pm2_example" JNull]
  by (simp add: pm2_example_names pm2_example_parsed)

text \<open>
  The claim as stated fails for an entry with an empty status: the empty string,
  lowered, is not \<^verbatim>\<open>online\<close>, and the parser does not count the entry.
\<close>

theorem pm2_empty_status_counterexample:
  "length (filter spec_bad [JObject [(''name'', JString ''api''), (''status'', JString [])]]) = 1
   \<and> map_option pm2BadCount
        (parseServerUpdate
           (Some (JObject [(''server_id'', JString ''a''),
              (''pm2'', JObject [(''details'', JArray
                 [JObject [(''name'', JString ''api''), (''status'', JString [])]])])])))
       = Some (Some 0)"
  by (simp add: spec_bad_def spec_status_def toLowerCase_def parseServerUpdate_def
        stats_of_payload_def pm2_bad_def bad_step_def)

section \<open>Properties of the notification throttle\<close>



















section \<open>Properties of the connection manager\<close>

lemma backoff_ok_init: "backoff_ok conn_init"
  by (simp add: backoff_ok_def conn_init_def)

lemma grow_bounds:
  fixes b :: real
  assumes "1000 \<le> b" and "b \<le> 15000"
  shows "1000 \<le> min (b * 1.6) 15000" and "min (b * 1.6) 15000 \<le> 15000"
    and "b \<le> min (b * 1.6) 15000"
  using assms by (simp_all add: min_def)

lemma close_backoff:
  "backoff (conn_step u c (OnClose code)) =
     (if shouldReconnect c \<and> code \<noteq> 1000 then min (backoff c * 1.6) 15000 else backoff c)"
  by (simp add: Let_def)

lemma close_state: "connectionState (conn_step u c (OnClose code)) = Closed"
  by (simp add: Let_def)

lemma close_timer:
  "shouldReconnect c \<Longrightarrow> code \<noteq> 1000 \<Longrightarrow>
   reconnectTimer (conn_step u c (OnClose code)) = Some (backoff c)"
  by (simp add: Let_def)

lemma backoff_ok_step:
  assumes "backoff_ok c"
  shows "backoff_ok (conn_step u c e)"
proof (cases e)
  case (OnClose code)
  from assms have "1000 \<le> backoff c" "backoff c \<le> 15000" by (simp_all add: backoff_ok_def)
  from grow_bounds(1,2) [OF this] this show ?thesis
    unfolding OnClose backoff_ok_def close_backoff close_state by simp
qed (use assms in \<open>simp_all add: backoff_ok_def\<close>)

lemma backoff_ok_foldl: "backoff_ok c \<Longrightarrow> backoff_ok (foldl (conn_step u) c es)"
  by (induction es arbitrary: c) (simp_all add: backoff_ok_step)

lemma backoff_ok_run: "backoff_ok (conn_run u conn_init es)"
  unfolding conn_run_def by (rule backoff_ok_foldl [OF backoff_ok_init])

lemma backoff_step_mono:
  assumes "backoff_ok c" and "e \<noteq> OnOpen"
  shows "backoff c \<le> backoff (conn_step u c e)"
proof (cases e)
  case (OnClose code)
  from assms have "1000 \<le> backoff c" "backoff c \<le> 15000" by (simp_all add: backoff_ok_def)
  from grow_bounds(3) [OF this] show ?thesis
    unfolding OnClose close_backoff by simp
qed (use assms in simp_all)

lemma armed_delays_sorted:
  "backoff_ok c \<Longrightarrow> OnOpen \<notin> set es \<Longrightarrow>
   sorted (armed_delays u c es) \<and> (\<forall>d\<in>set (armed_delays u c es). backoff c \<le> d \<and> d \<le> 15000)"
proof (induction es arbitrary: c)
  case Nil
  then show ?case by simp
next
  case (Cons e es)
  let ?c' = "conn_step u c e"
  from Cons.prems have e: "e \<noteq> OnOpen" and es: "OnOpen \<notin> set es" by auto
  have ok': "backoff_ok ?c'" by (rule backoff_ok_step [OF Cons.prems(1)])
  have mono: "backoff c \<le> backoff ?c'" by (rule backoff_step_mono [OF Cons.prems(1) e])
  from Cons.IH [OF ok' es]
  have ih: "sorted (armed_delays u ?c' es)"
    and bound: "\<forall>d\<in>set (armed_delays u ?c' es). backoff ?c' \<le> d \<and> d \<le> 15000"
    by simp_all
  from bound mono have bound': "\<forall>d\<in>set (armed_delays u ?c' es). backoff c \<le> d \<and> d \<le> 15000"
    by auto
  have c15: "backoff c \<le> 15000" using Cons.prems(1) by (simp add: backoff_ok_def)
  show ?case
  proof (cases e)
    case (OnClose code)
    have "armed_delays u c (e # es) =
            (if shouldReconnect c \<and> code \<noteq> 1000 then [backoff c] else []) @ armed_delays u ?c' es"
      unfolding OnClose by simp
    then show ?thesis using ih bound' c15 by (auto simp: sorted_append)
  next
    case Connect
    then show ?thesis using ih bound' by simp
  next
    case OnOpen
    with e show ?thesis by simp
  next
    case OnError
    then show ?thesis using ih bound' by simp
  next
    case Cleanup
    then show ?thesis using ih bound' by simp
  qed
qed

text \<open>
  C7. After any events since the effect started, the backoff is between its floor 1000
  and its ceiling 15000, and it is 1000 whenever the connection is open: the open event
  sets it to 1000 at once. No other event lowers it. A close that re-arms the reconnect
  timer arms it with the current backoff and then multiplies the backoff by 1.6, up to
  the ceiling. So the delays of the timers armed over any run of events without an open
  event never decrease and never exceed the ceiling.
\<close>

theorem backoff_monotone:
  "1000 \<le> backoff (conn_run u conn_init es)
   \<and> backoff (conn_run u conn_init es) \<le> 15000
   \<and> (connectionState (conn_run u conn_init es) = Open \<longrightarrow> backoff (conn_run u conn_init es) = 1000)
   \<and> backoff (conn_run u conn_init (es @ [OnOpen])) = 1000
   \<and> connectionState (conn_run u conn_init (es @ [OnOpen])) = Open
   \<and> (\<forall>e. e \<noteq> OnOpen \<longrightarrow>
         backoff (conn_run u conn_init es) \<le> backoff (conn_run u conn_init (es @ [e])))
   \<and> (\<forall>code. shouldReconnect (conn_run u conn_init es) \<and> code \<noteq> 1000 \<longrightarrow>
         reconnectTimer (conn_run u conn_init (es @ [OnClose code]))
           = Some (backoff (conn_run u conn_init es))
         \<and> backoff (conn_run u conn_init (es @ [OnClose code]))
           = min (backoff (conn_run u conn_init es) * 1.6) 15000)
   \<and> (\<forall>es'. OnOpen \<notin> set es' \<longrightarrow>
         sorted (armed_delays u (conn_run u conn_init es) es')
         \<and> (\<forall>d\<in>set (armed_delays u (conn_run u conn_init es) es').
               backoff (conn_run u conn_init es) \<le> d \<and> d \<le> 15000))"
proof -
  let ?c = "conn_run u conn_init es"
  have ok: "backoff_ok ?c" by (rule backoff_ok_run)
  have snoc: "\<And>e. conn_run u conn_init (es @ [e]) = conn_step u ?c e"
    by (simp add: conn_run_def)
  have a: "1000 \<le> backoff ?c \<and> backoff ?c \<le> 15000
           \<and> (connectionState ?c = Open \<longrightarrow> backoff ?c = 1000)"
    using ok by (simp add: backoff_ok_def)
  have b: "backoff (conn_run u conn_init (es @ [OnOpen])) = 1000
           \<and> connectionState (conn_run u conn_init (es @ [OnOpen])) = Open"
    by (simp add: snoc)
  have c: "\<forall>e. e \<noteq> OnOpen \<longrightarrow> backoff ?c \<le> backoff (conn_run u conn_init (es @ [e]))"
    unfolding snoc using backoff_step_mono [OF ok] by blast
  have d: "\<forall>code. shouldReconnect ?c \<and> code \<noteq> 1000 \<longrightarrow>
         reconnectTimer (conn_run u conn_init (es @ [OnClose code])) = Some (backoff ?c)
         \<and> backoff (conn_run u conn_init (es @ [OnClose code])) = min (backoff ?c * 1.6) 15000"
    unfolding snoc by (simp add: close_timer close_backoff)
  have e: "\<forall>es'. OnOpen \<notin> set es' \<longrightarrow>
         sorted (armed_delays u ?c es')
         \<and> (\<forall>d\<in>set (armed_delays u ?c es'). backoff ?c \<le> d \<and> d \<le> 15000)"
    using armed_delays_sorted [OF ok] by blast
  from a b c d e show ?thesis by blast
qed

theorem backoff_monotone_witness:
  "OnOpen \<notin> set [OnClose 1006, Connect, OnError, OnClose 1006]
   \<and> armed_delays ''ws://h/ws'' (conn_run ''ws://h/ws'' conn_init [Connect, OnOpen])
        [OnClose 1006, Connect, OnError, OnClose 1006] = [1000, 1600]
   \<and> backoff (conn_run ''ws://h/ws'' conn_init [Connect, OnOpen]) = 1000
   \<and> backoff (conn_run ''ws://h/ws'' conn_init ([Connect, OnOpen] @ [OnClose 1006])) = 1600"
  using backoff_monotone [of "''ws://h/ws''" "[Connect, OnOpen]"]
  by (simp add: conn_run_def conn_init_def Let_def)

end
